theory Spec2Isabelle
  imports Complex_Main
begin

section \<open>Data model of the ball device\<close>

text \<open>
  The embedding follows \<^verbatim>\<open>mpf/devices/ball_device/ball_device.py\<close>. Python object
  references between devices are device names (unique per machine); the machine holds
  one record per name, so a reference always denotes a device, as in Python.
\<close>

type_synonym dev = string

text \<open>The exceptions the modelled code can raise. \<open>RecursionError\<close> is what CPython
  raises when nested calls exceed the interpreter's recursion limit.\<close>

datatype error =
    AssertionError string
  | AttributeError
  | IndexError
  | KeyError
  | ValueError
  | RecursionError

text \<open>\<open>self.ejector\<close>: set by \<open>_configure_targets\<close>, \<open>None\<close> for a device without coil.\<close>

datatype ejector = PulseCoilEjector | HoldCoilEjector

text \<open>
  \<open>self.config\<close> after \<open>_parse_config\<close>. An optional object or string is an option;
  the two timeout dictionaries (keyed by eject target, values in ms) are association
  lists in insertion order with pairwise distinct keys.
\<close>

record config =
  ball_capacity :: int
  ball_switches :: "string list"
  eject_coil :: "string option"
  hold_coil :: "string option"
  mechanical_eject :: bool
  eject_targets :: "dev list"
  eject_timeouts :: "(dev \<times> int) list"
  ball_missing_timeouts :: "(dev \<times> int) list"
  exit_count_delay :: int
  entrance_count_delay :: int
  max_eject_attempts :: int
  confirm_eject_type :: string
  confirm_eject_switch :: "string option"
  confirm_eject_event :: "string option"
  jam_switch :: "string option"
  player_controlled_eject_event :: "string option"
  ball_missing_target :: dev
  captures_from :: dev

text \<open>An entry of \<open>eject_queue\<close>: the tuple (target, mechanical, trigger event).
  The target is \<open>eject_in_progress_target\<close> when \<open>eject_failed\<close> puts an eject back,
  hence optional.\<close>

type_synonym eject_request = "dev option \<times> bool \<times> string option"

text \<open>An \<open>OutgoingBall\<close> as \<open>setup_eject_chain_next_hop\<close> fills it in:
  target, eject timeout in seconds, max tries, mechanical.\<close>

record outgoing_ball =
  ob_target :: dev
  ob_eject_timeout :: rat
  ob_max_tries :: int
  ob_mechanical :: bool

text \<open>
  The attributes of a \<open>BallDevice\<close>. \<open>balls\<close> is the property reading
  \<open>ball_count_handler.handled_balls\<close>; \<open>state\<close> is the property \<open>_state\<close>;
  \<open>playfield\<close> is the result of \<open>is_playfield()\<close> (true only for the playfield class,
  which is not part of the sources); \<open>incoming_balls\<close> holds (deadline, source)
  pairs; \<open>outgoing_ejects\<close> is the queue of the outgoing balls handler;
  \<open>blocked_eject_attempts\<close> holds (event queue, source) pairs; \<open>eject_status_logger\<close>
  tells whether the periodic status log is scheduled. The handlers behind the
  properties \<open>_state\<close> and \<open>balls\<close> are not part of the sources: an assignment to
  one of the two is taken to store the value.
\<close>

record device =
  tags :: "string list"
  playfield :: bool
  config :: config
  ejector :: "ejector option"
  source_devices :: "dev list"
  target_on_unexpected_ball :: dev
  state :: string
  balls :: int
  available_balls :: int
  eject_queue :: "eject_request list"
  num_eject_attempts :: int
  eject_in_progress_target :: "dev option"
  mechanical_eject_in_progress :: bool
  trigger_event :: "string option"
  jam_switch_state_during_eject :: bool
  incoming_balls :: "(int \<times> dev) list"
  ball_requests :: "(dev \<times> bool) list"
  outgoing_ejects :: "outgoing_ball list"
  eject_request_condition :: bool
  eject_success_condition :: bool
  eject_start_time :: "int option"
  blocked_eject_attempts :: "(string \<times> dev) list"
  debug :: bool
  eject_status_logger :: bool

section \<open>Capacity\<close>

text \<open>\<open>get_real_additional_capacity\<close>: the warning it logs is no change of state.\<close>

definition get_real_additional_capacity :: "device \<Rightarrow> int" where
  "get_real_additional_capacity d = ball_capacity (config d) - balls d"

definition get_additional_ball_capacity :: "device \<Rightarrow> int" where
  "get_additional_ball_capacity d =
     (let capacity = get_real_additional_capacity d;
          capacity = capacity - int (length (incoming_balls d));
          capacity = (if eject_in_progress_target d \<noteq> None then capacity - 1 else capacity)
      in if capacity < 0 then 0 else capacity)"

text \<open>The figure the specification gives for the advertised capacity.\<close>

definition advertised_capacity_formula :: "device \<Rightarrow> int" where
  "advertised_capacity_formula d =
     ball_capacity (config d) - balls d - int (length (incoming_balls d))
       - (if eject_in_progress_target d \<noteq> None then 1 else 0)"

text \<open>A device used in closed examples: capacity 1, nothing held, nothing queued.\<close>

definition cfg0 :: config where
  "cfg0 = \<lparr> ball_capacity = 1, ball_switches = [''s_ball''], eject_coil = Some ''c_eject'',
     hold_coil = None, mechanical_eject = False, eject_targets = [],
     eject_timeouts = [], ball_missing_timeouts = [],
     exit_count_delay = 500, entrance_count_delay = 500, max_eject_attempts = 0,
     confirm_eject_type = ''target'', confirm_eject_switch = None,
     confirm_eject_event = None, jam_switch = None,
     player_controlled_eject_event = None, ball_missing_target = ''playfield'',
     captures_from = ''playfield'' \<rparr>"

definition dev0 :: device where
  "dev0 = \<lparr> tags = [], playfield = False, config = cfg0, ejector = Some PulseCoilEjector,
     source_devices = [], target_on_unexpected_ball = ''playfield'', state = ''idle'',
     balls = 0, available_balls = 0, eject_queue = [], num_eject_attempts = 0,
     eject_in_progress_target = None, mechanical_eject_in_progress = False,
     trigger_event = None, jam_switch_state_during_eject = False, incoming_balls = [],
     ball_requests = [], outgoing_ejects = [], eject_request_condition = False,
     eject_success_condition = False, eject_start_time = None,
     blocked_eject_attempts = [], debug = False, eject_status_logger = False \<rparr>"

section \<open>The device graph\<close>

text \<open>The devices of the machine, by name.\<close>

type_synonym devices = "dev \<Rightarrow> device"

text \<open>
  The three searches recurse from device to device with no bound of their own. The
  first argument is the number of nested calls the interpreter still allows; a search
  that needs more raises \<open>RecursionError\<close>. Each \<open>for\<close> loop is the function with the
  suffix \<open>_loop\<close>, over the rest of the list it iterates. A returned device or a
  non-empty deque is truthy, \<open>False\<close> is \<open>None\<close>.
\<close>

fun find_next_trough :: "nat \<Rightarrow> devices \<Rightarrow> dev \<Rightarrow> error + dev option"
  and find_next_trough_loop :: "nat \<Rightarrow> devices \<Rightarrow> dev list \<Rightarrow> error + dev option"
where
  "find_next_trough 0 m self = Inl RecursionError"
| "find_next_trough (Suc n) m self =
     (if ''trough'' \<in> set (tags (m self)) then Inr (Some self)
      else find_next_trough_loop n m (eject_targets (config (m self))))"
| "find_next_trough_loop n m [] = Inr None"
| "find_next_trough_loop n m (target_device # rest) =
     (if playfield (m target_device) then find_next_trough_loop n m rest
      else case find_next_trough n m target_device of
             Inl e \<Rightarrow> Inl e
           | Inr (Some trough) \<Rightarrow> Inr (Some trough)
           | Inr None \<Rightarrow> find_next_trough_loop n m rest)"

fun find_path_to_target :: "nat \<Rightarrow> devices \<Rightarrow> dev \<Rightarrow> dev \<Rightarrow> error + dev list option"
  and find_path_to_target_loop ::
    "nat \<Rightarrow> devices \<Rightarrow> dev \<Rightarrow> dev list \<Rightarrow> dev \<Rightarrow> error + dev list option"
where
  "find_path_to_target 0 m self target = Inl RecursionError"
| "find_path_to_target (Suc n) m self target =
     (if target \<in> set (eject_targets (config (m self))) then Inr (Some [self, target])
      else find_path_to_target_loop n m self (eject_targets (config (m self))) target)"
| "find_path_to_target_loop n m self [] target = Inr None"
| "find_path_to_target_loop n m self (target_device # rest) target =
     (if playfield (m target_device) then find_path_to_target_loop n m self rest target
      else case find_path_to_target n m target_device target of
             Inl e \<Rightarrow> Inl e
           | Inr (Some path) \<Rightarrow> Inr (Some (self # path))
           | Inr None \<Rightarrow> find_path_to_target_loop n m self rest target)"

fun find_one_available_ball :: "nat \<Rightarrow> devices \<Rightarrow> dev \<Rightarrow> dev list \<Rightarrow> error + dev list option"
  and find_one_available_ball_loop ::
    "nat \<Rightarrow> devices \<Rightarrow> dev list \<Rightarrow> dev list \<Rightarrow> error + dev list option"
where
  "find_one_available_ball 0 m self path = Inl RecursionError"
| "find_one_available_ball (Suc n) m self path =
     (if self \<in> set path then Inr None
      else let path = self # path in
        if available_balls (m self) > 0 \<and> length path > 1 then Inr (Some path)
        else find_one_available_ball_loop n m (source_devices (m self)) path)"
| "find_one_available_ball_loop n m [] path = Inr None"
| "find_one_available_ball_loop n m (source # rest) path =
     (case find_one_available_ball n m source path of
        Inl e \<Rightarrow> Inl e
      | Inr (Some full_path) \<Rightarrow> Inr (Some full_path)
      | Inr None \<Rightarrow> find_one_available_ball_loop n m rest path)"

subsection \<open>What the searches are measured against\<close>

text \<open>\<open>hops_to k m d t\<close>: \<open>t\<close> is \<open>d\<close> or is reached from \<open>d\<close> by at most \<open>k\<close> ejects
  along \<open>eject_targets\<close>, entering no playfield.\<close>

fun hops_to :: "nat \<Rightarrow> devices \<Rightarrow> dev \<Rightarrow> dev \<Rightarrow> bool" where
  "hops_to 0 m d t = (d = t)"
| "hops_to (Suc k) m d t =
     (d = t \<or> (\<exists>e \<in> set (eject_targets (config (m d))). \<not> playfield (m e) \<and> hops_to k m e t))"

text \<open>\<open>valid_path m p\<close>: \<open>p\<close> has at least two devices, each the eject target of the one
  before it, and no device strictly inside \<open>p\<close> is a playfield.\<close>

fun valid_path :: "devices \<Rightarrow> dev list \<Rightarrow> bool" where
  "valid_path m (a # b # rest) =
     (b \<in> set (eject_targets (config (m a))) \<and>
      (if rest = [] then True else \<not> playfield (m b) \<and> valid_path m (b # rest)))"
| "valid_path m _ = False"

text \<open>A graph has no cycle through devices that are searched when a rank falls along
  every edge into a device that is not a playfield.\<close>

definition ranked :: "(dev \<Rightarrow> nat) \<Rightarrow> devices \<Rightarrow> bool" where
  "ranked rk m =
     (\<forall>d. \<forall>e \<in> set (eject_targets (config (m d))). \<not> playfield (m e) \<longrightarrow> rk e < rk d)"

text \<open>
  The search as the specification words it, for comparison with \<open>find_path_to_target\<close>:
  depth-first, the eject targets visited left to right in declared order, the first
  path found returned; a playfield ends a path and is not searched.
\<close>

fun spec_depth_first_path :: "nat \<Rightarrow> devices \<Rightarrow> dev \<Rightarrow> dev \<Rightarrow> error + dev list option"
  and spec_depth_first_path_loop ::
    "nat \<Rightarrow> devices \<Rightarrow> dev \<Rightarrow> dev list \<Rightarrow> dev \<Rightarrow> error + dev list option"
where
  "spec_depth_first_path 0 m self target = Inl RecursionError"
| "spec_depth_first_path (Suc n) m self target =
     spec_depth_first_path_loop n m self (eject_targets (config (m self))) target"
| "spec_depth_first_path_loop n m self [] target = Inr None"
| "spec_depth_first_path_loop n m self (e # rest) target =
     (if e = target then Inr (Some [self, target])
      else if playfield (m e) then spec_depth_first_path_loop n m self rest target
      else case spec_depth_first_path n m e target of
             Inl err \<Rightarrow> Inl err
           | Inr (Some path) \<Rightarrow> Inr (Some (self # path))
           | Inr None \<Rightarrow> spec_depth_first_path_loop n m self rest target)"

subsection \<open>Example machines\<close>

text \<open>A machine from a list of named devices; every other name is the idle device
  \<open>dev0\<close> without eject targets.\<close>

definition machine_of :: "(dev \<times> device) list \<Rightarrow> devices" where
  "machine_of ds d = (case map_of ds d of Some x \<Rightarrow> x | None \<Rightarrow> dev0)"

definition node :: "dev list \<Rightarrow> dev list \<Rightarrow> string list \<Rightarrow> int \<Rightarrow> device" where
  "node targets sources tgs avail =
     dev0\<lparr> config := cfg0\<lparr> eject_targets := targets,
                            eject_timeouts := map (\<lambda>t. (t, 10000)) targets,
                            ball_missing_timeouts := map (\<lambda>t. (t, 20000)) targets \<rparr>,
           source_devices := sources, tags := tgs, available_balls := avail, balls := avail \<rparr>"

text \<open>a ejects to b, b to c; a holds one available ball.\<close>

definition line_machine :: devices where
  "line_machine = machine_of
     [(''a'', node [''b''] [] [] 1), (''b'', node [''c''] [''a''] [] 0),
      (''c'', node [] [''b''] [] 0)]"

text \<open>a ejects to b and to the trough t2; b ejects to the trough t1.\<close>

definition fork_machine :: devices where
  "fork_machine = machine_of
     [(''a'', node [''b'', ''t2''] [] [] 0), (''b'', node [''t1''] [''a''] [] 0),
      (''t1'', node [] [''b''] [''trough''] 0), (''t2'', node [] [''a''] [''trough''] 0)]"

text \<open>a ejects to b and, directly, to t; b ejects to t.\<close>

definition shortcut_machine :: devices where
  "shortcut_machine = machine_of
     [(''a'', node [''b'', ''t''] [] [] 0), (''b'', node [''t''] [''a''] [] 0),
      (''t'', node [] [''b'', ''a''] [] 0)]"

text \<open>a and b eject to each other; a holds one available ball.\<close>

definition cycle_machine :: devices where
  "cycle_machine = machine_of
     [(''a'', node [''b''] [''b''] [] 1), (''b'', node [''a''] [''a''] [] 0)]"

definition line_rank :: "dev \<Rightarrow> nat" where
  "line_rank d = (if d = ''a'' then 2 else if d = ''b'' then 1 else 0)"

section \<open>The machine: devices and the calls to the rest of the framework\<close>

text \<open>
  The event bus, the delay scheduler, the switch controller, the ejector, the ball
  counter and the incoming and outgoing balls handlers are not part of the sources.
  Every call to one of them is recorded, in order, as an \<open>action\<close>: the four ways of
  posting an event (its name and its keyword arguments), and \<open>Call\<close> with the name of
  the method and its arguments for everything else. What the ball device reads back
  from them are the observations of the section on the state machine. \<open>now\<close> is the
  reading of \<open>machine.clock.get_time()\<close>, in whole clock ticks.
\<close>

datatype arg = ArgInt int | ArgBool bool | ArgDev dev | ArgStr string | ArgNone

definition arg_dev :: "dev option \<Rightarrow> arg" where
  "arg_dev t = (case t of None \<Rightarrow> ArgNone | Some d \<Rightarrow> ArgDev d)"

datatype action =
    Post string "(string \<times> arg) list"
  | PostAsync string "(string \<times> arg) list"
  | PostBoolean string
  | PostQueueAsync string "(string \<times> arg) list"
  | Call string "arg list"

record machine =
  devs :: devices
  actions :: "action list"
  now :: int

definition upd_dev :: "dev \<Rightarrow> (device \<Rightarrow> device) \<Rightarrow> machine \<Rightarrow> machine" where
  "upd_dev d f m = m\<lparr>devs := (devs m)(d := f (devs m d))\<rparr>"

definition act :: "action \<Rightarrow> machine \<Rightarrow> machine" where
  "act a m = m\<lparr>actions := actions m @ [a]\<rparr>"

text \<open>Python truth of an optional string: \<open>None\<close> and the empty string are false.\<close>

definition truthy :: "string option \<Rightarrow> bool" where
  "truthy s = (case s of None \<Rightarrow> False | Some x \<Rightarrow> x \<noteq> [])"

section \<open>Setting up an eject chain\<close>

text \<open>
  \<open>setup_eject_chain_next_hop\<close>: \<open>path\<close> is the deque shared by the recursive calls,
  each of which pops its next hop; popping an empty deque raises \<open>IndexError\<close>. The
  timeout of the outgoing ball is \<open>eject_timeouts[next_hop] / 1000\<close>, a float in Python
  and the exact quotient here; the lookup raises \<open>KeyError\<close> for a missing key.
\<close>

fun setup_eject_chain_next_hop :: "machine \<Rightarrow> dev \<Rightarrow> dev list \<Rightarrow> bool \<Rightarrow> error + machine" where
  "setup_eject_chain_next_hop m self [] player_controlled = Inl IndexError"
| "setup_eject_chain_next_hop m self (next_hop # path) player_controlled =
     (let cfg = config (devs m self) in
      if next_hop \<notin> set (eject_targets cfg) then Inl (AssertionError ''Broken path'')
      else case map_of (eject_timeouts cfg) next_hop of
        None \<Rightarrow> Inl KeyError
      | Some ms \<Rightarrow>
          let eject = \<lparr> ob_target = next_hop, ob_eject_timeout = of_int ms / 1000,
                         ob_max_tries = max_eject_attempts cfg,
                         ob_mechanical = player_controlled \<rparr>;
              m = upd_dev self (\<lambda>d. d\<lparr>outgoing_ejects := outgoing_ejects d @ [eject]\<rparr>) m;
              entry = (if player_controlled \<and>
                          (mechanical_eject cfg \<or> truthy (player_controlled_eject_event cfg))
                       then (Some next_hop, mechanical_eject cfg,
                             player_controlled_eject_event cfg)
                       else (Some next_hop, False, None));
              m = upd_dev self (\<lambda>d. d\<lparr>eject_queue := eject_queue d @ [entry]\<rparr>) m
          in case (if length path > 0
                   then setup_eject_chain_next_hop m next_hop path player_controlled
                   else Inr m) of
               Inl e \<Rightarrow> Inl e
             | Inr m \<Rightarrow> Inr (upd_dev self (\<lambda>d. d\<lparr>eject_request_condition := True\<rparr>) m))"

text \<open>\<open>setup_eject_chain\<close>: \<open>path[len(path) - 1]\<close> on an empty deque is \<open>path[-1]\<close> and
  raises \<open>IndexError\<close>.\<close>

definition setup_eject_chain :: "machine \<Rightarrow> dev \<Rightarrow> dev list \<Rightarrow> bool \<Rightarrow> error + machine" where
  "setup_eject_chain m self path player_controlled =
     (if available_balls (devs m self) \<le> 0
      then Inl (AssertionError
             ''Tried to setup an eject chain, but there are no available balls.'')
      else
        let m = upd_dev self (\<lambda>d. d\<lparr>available_balls := available_balls d - 1\<rparr>) m in
        case path of
          [] \<Rightarrow> Inl IndexError
        | source # rest \<Rightarrow>
            let target = last path in
            if source \<noteq> self then Inl (AssertionError ''Path starts somewhere else!'')
            else case setup_eject_chain_next_hop m self rest player_controlled of
              Inl e \<Rightarrow> Inl e
            | Inr m \<Rightarrow>
                let m = upd_dev target (\<lambda>d. d\<lparr>available_balls := available_balls d + 1\<rparr>) m
                in Inr (act (PostBoolean ''balldevice_balls_available'') m))"

text \<open>The machine before anything was posted.\<close>

definition start :: "devices \<Rightarrow> machine" where
  "start ds = \<lparr> devs = ds, actions = [], now = 0 \<rparr>"

text \<open>\<open>new_targets path d\<close>: the next hops of \<open>d\<close> along \<open>path\<close>, one for each place
  where \<open>d\<close> stands before the end, in order.\<close>

definition new_targets :: "dev list \<Rightarrow> dev \<Rightarrow> dev option list" where
  "new_targets path d = map (Some \<circ> snd) (filter (\<lambda>h. fst h = d) (zip path (tl path)))"

section \<open>Validation of the configuration\<close>

text \<open>\<open>min\<close> and \<open>max\<close> of the values of a dictionary raise \<open>ValueError\<close> when it is empty.\<close>

definition py_min :: "int list \<Rightarrow> error + int" where
  "py_min xs = (case xs of [] \<Rightarrow> Inl ValueError | y # ys \<Rightarrow> Inr (fold min ys y))"

definition py_max :: "int list \<Rightarrow> error + int" where
  "py_max xs = (case xs of [] \<Rightarrow> Inl ValueError | y # ys \<Rightarrow> Inr (fold max ys y))"

text \<open>
  \<open>_validate_config\<close>, the checks in the order of the source; the first argument is
  the call depth left for the two graph searches, and a search that the
  short-circuit \<open>and\<close> skips counts as one that found something. A coil or switch that
  is configured is an object, hence true. The messages are shortened to the text after
  the device name.
\<close>

definition validate_config :: "nat \<Rightarrow> devices \<Rightarrow> dev \<Rightarrow> error + unit" where
  "validate_config n m self =
     (let cfg = config (m self); tgs = tags (m self) in
      if eject_coil cfg = None \<and> hold_coil cfg = None \<and> \<not> mechanical_eject cfg
      then Inl (AssertionError
             ''Device needs an eject_coil, a hold_coil, or mechanical_eject: True'')
      else if length (ball_switches cfg) > 1 \<and> mechanical_eject cfg
      then Inl (AssertionError
             ''mechanical_eject can only be used with devices that have 1 ball switch'')
      else case py_min (map snd (eject_timeouts cfg)) of Inl e \<Rightarrow> Inl e | Inr min_eject \<Rightarrow>
      if exit_count_delay cfg > min_eject
      then Inl (AssertionError ''all eject_timeouts have to be larger than exit_count_delay'')
      else if entrance_count_delay cfg > min_eject
      then Inl (AssertionError
             ''all eject_timeouts have to be larger than entrance_count_delay'')
      else case py_max (map snd (eject_timeouts cfg)) of Inl e \<Rightarrow> Inl e | Inr max_eject \<Rightarrow>
      case py_min (map snd (ball_missing_timeouts cfg)) of Inl e \<Rightarrow> Inl e | Inr min_missing \<Rightarrow>
      if max_eject > min_missing
      then Inl (AssertionError
             ''all ball_missing_timeouts have to be larger than all eject_timeouts'')
      else case py_max (map snd (ball_missing_timeouts cfg)) of Inl e \<Rightarrow> Inl e
        | Inr max_missing \<Rightarrow>
      if max_missing > 60000
      then Inl (AssertionError
             ''incoming ball timeout has to be larger than all ball_missing_timeouts'')
      else if confirm_eject_type cfg = ''switch'' \<and> confirm_eject_switch cfg = None
      then Inl (AssertionError
             ''When using confirm_eject_type switch you to specify a confirm_eject_switch'')
      else case (if ''drain'' \<in> set tgs \<and> ''trough'' \<notin> set tgs
                 then find_next_trough n m self else Inr (Some self)) of
        Inl e \<Rightarrow> Inl e
      | Inr None \<Rightarrow> Inl (AssertionError ''No path to trough but device is tagged as drain'')
      | Inr (Some trough) \<Rightarrow>
      case (if ''drain'' \<notin> set tgs \<and> ''trough'' \<notin> set tgs
            then find_path_to_target n m self (target_on_unexpected_ball (m self))
            else Inr (Some [self])) of
        Inl e \<Rightarrow> Inl e
      | Inr None \<Rightarrow> Inl (AssertionError ''BallDevice has no path to target_on_unexpected_ball'')
      | Inr (Some path) \<Rightarrow> Inr ())"

text \<open>A device with an eject coil and a hold coil, ejecting to the playfield.\<close>

definition two_coils_machine :: devices where
  "two_coils_machine = machine_of
     [(''d'', (node [''playfield''] [] [] 0)
                \<lparr> config := (config (node [''playfield''] [] [] 0))
                     \<lparr> eject_coil := Some ''c_eject'', hold_coil := Some ''c_hold'' \<rparr> \<rparr>),
      (''playfield'', (node [] [] [] 0)\<lparr> playfield := True \<rparr>)]"

section \<open>Theorems\<close>

subsection \<open>Capacity\<close>

lemma get_additional_ball_capacity_max:
  "get_additional_ball_capacity d = max 0 (advertised_capacity_formula d)"
  by (simp add: get_additional_ball_capacity_def get_real_additional_capacity_def
      advertised_capacity_formula_def Let_def)

text \<open>
  C2, as stated, fails: a full device (capacity 1, one ball held) with one incoming ball
  advertises 0, while capacity minus held minus incoming is -1.
\<close>

theorem C2_capacity_formula_counterexample:
  "get_additional_ball_capacity (dev0\<lparr>balls := 1, incoming_balls := [(5, ''trough'')]\<rparr>) = 0 \<and>
   advertised_capacity_formula (dev0\<lparr>balls := 1, incoming_balls := [(5, ''trough'')]\<rparr>) = -1"
  by (simp add: get_additional_ball_capacity_def get_real_additional_capacity_def
      advertised_capacity_formula_def dev0_def cfg0_def)

text \<open>
  C2 (amended): \<open>get_additional_ball_capacity\<close> returns capacity minus held balls minus
  the number of incoming balls minus 1 if an eject is in progress, whenever that figure
  is not negative, and 0 otherwise.
\<close>

theorem C2_capacity_formula_clamped:
  "get_additional_ball_capacity d =
     (if 0 \<le> advertised_capacity_formula d then advertised_capacity_formula d else 0)"
  by (simp add: get_additional_ball_capacity_max)

theorem C2_capacity_formula_clamped_witness:
  "get_additional_ball_capacity (dev0\<lparr>balls := 0, incoming_balls := []\<rparr>) = 1"
  using C2_capacity_formula_clamped [of "dev0\<lparr>balls := 0, incoming_balls := []\<rparr>"]
  by (simp add: advertised_capacity_formula_def dev0_def cfg0_def)

text \<open>
  C10: for all values of held balls, incoming balls and the eject in progress, also
  with more balls held than the capacity, \<open>get_additional_ball_capacity\<close> is not
  negative; it is 0 whenever capacity minus held minus incoming minus the reservation
  for the eject in progress is negative.
\<close>

theorem C10_capacity_never_negative:
  "0 \<le> get_additional_ball_capacity d \<and>
   (advertised_capacity_formula d < 0 \<longrightarrow> get_additional_ball_capacity d = 0)"
  by (simp add: get_additional_ball_capacity_max)

theorem C10_capacity_never_negative_witness:
  "advertised_capacity_formula (dev0\<lparr>balls := 3\<rparr>) < 0 \<and>
   0 \<le> get_additional_ball_capacity (dev0\<lparr>balls := 3\<rparr>) \<and>
   get_additional_ball_capacity (dev0\<lparr>balls := 3\<rparr>) = 0"
  using C10_capacity_never_negative [of "dev0\<lparr>balls := 3\<rparr>"]
  by (simp add: advertised_capacity_formula_def dev0_def cfg0_def)

subsection \<open>The graph searches\<close>


lemma find_one_available_ball_shape:
  "(find_one_available_ball n m self path = Inr (Some p) \<longrightarrow>
      (\<exists>pre. p = pre @ self # path) \<and> (distinct path \<longrightarrow> distinct p) \<and> length p > 1 \<and> available_balls (m (hd p)) > 0)"
  "(find_one_available_ball_loop n m srcs path = Inr (Some p) \<longrightarrow>
      (\<exists>pre. pre \<noteq> [] \<and> p = pre @ path) \<and> (distinct path \<longrightarrow> distinct p) \<and> length p > 1 \<and> available_balls (m (hd p)) > 0)"
proof (induction n m self path and n m srcs path rule: find_one_available_ball_find_one_available_ball_loop.induct)
  case (1 m self path)
  then show ?case by simp
next
  case (2 n m self path)
  then show ?case by (auto simp: Let_def split: if_splits)
next
  case (3 n m path)
  then show ?case by simp
next
  case (4 n m source rest path)
  then show ?case
    by (auto split: sum.splits option.splits)
qed



lemma find_next_trough_sound:
  "(find_next_trough n m d = Inr (Some t) \<longrightarrow> ''trough'' \<in> set (tags (m t)) \<and> (\<exists>k. hops_to k m d t))"
  "(find_next_trough_loop n m ts = Inr (Some t) \<longrightarrow> ''trough'' \<in> set (tags (m t)) \<and>
       (\<exists>e \<in> set ts. \<not> playfield (m e) \<and> (\<exists>k. hops_to k m e t)))"
proof (induction n m d and n m ts rule: find_next_trough_find_next_trough_loop.induct)
  case (1 m self)
  then show ?case by simp
next
  case (2 n m self)
  show ?case
  proof (cases "''trough'' \<in> set (tags (m self))")
    case True
    have "hops_to 0 m self self" by simp
    then have "\<exists>k. hops_to k m self self" by blast
    with True show ?thesis by auto
  next
    case False
    show ?thesis
    proof
      assume a: "find_next_trough (Suc n) m self = Inr (Some t)"
      with False 2 obtain e k where e: "''trough'' \<in> set (tags (m t))" "e \<in> set (eject_targets (config (m self)))"
         "\<not> playfield (m e)" "hops_to k m e t" by auto
      then have "hops_to (Suc k) m self t" by auto
      with e show "''trough'' \<in> set (tags (m t)) \<and> (\<exists>k. hops_to k m self t)" by blast
    qed
  qed
next
  case (3 n m)
  then show ?case by simp
next
  case (4 n m target_device rest)
  then show ?case
    by (auto split: sum.splits option.splits if_splits)
qed

lemma find_next_trough_loop_total:
  "\<forall>e \<in> set ts. \<not> playfield (m e) \<longrightarrow> (\<exists>r. find_next_trough n m e = Inr r) \<Longrightarrow>
   \<exists>r. find_next_trough_loop n m ts = Inr r"
  by (induction ts) (auto split: sum.splits option.splits)

lemma find_next_trough_loop_None:
  "\<forall>e \<in> set ts. \<not> playfield (m e) \<longrightarrow> (\<exists>r. find_next_trough n m e = Inr r) \<Longrightarrow>
   find_next_trough_loop n m ts = Inr None \<longleftrightarrow>
     (\<forall>e \<in> set ts. \<not> playfield (m e) \<longrightarrow> find_next_trough n m e = Inr None)"
  by (induction ts) (auto split: sum.splits option.splits)

lemma find_next_trough_total:
  "ranked rk m \<Longrightarrow> rk d < n \<Longrightarrow> \<exists>r. find_next_trough n m d = Inr r"
proof (induction n arbitrary: d)
  case 0
  then show ?case by simp
next
  case (Suc n)
  have "\<forall>e \<in> set (eject_targets (config (m d))). \<not> playfield (m e) \<longrightarrow> (\<exists>r. find_next_trough n m e = Inr r)"
  proof (intro ballI impI)
    fix e assume "e \<in> set (eject_targets (config (m d)))" "\<not> playfield (m e)"
    with Suc.prems have "rk e < n" unfolding ranked_def by fastforce
    with Suc show "\<exists>r. find_next_trough n m e = Inr r" by blast
  qed
  then show ?case using find_next_trough_loop_total by simp
qed

lemma find_next_trough_found:
  "ranked rk m \<Longrightarrow> rk d < n \<Longrightarrow> hops_to k m d t \<Longrightarrow> ''trough'' \<in> set (tags (m t)) \<Longrightarrow>
   find_next_trough n m d \<noteq> Inr None"
proof (induction n arbitrary: d k)
  case 0
  then show ?case by simp
next
  case (Suc n)
  show ?case
  proof (cases "''trough'' \<in> set (tags (m d))")
    case True
    then show ?thesis by simp
  next
    case False
    with Suc.prems have "d \<noteq> t" by auto
    with Suc.prems obtain k' e where k: "k = Suc k'" "e \<in> set (eject_targets (config (m d)))"
        "\<not> playfield (m e)" "hops_to k' m e t"
      by (cases k) auto
    with Suc.prems have rk: "rk e < n" unfolding ranked_def by fastforce
    with Suc k have ne: "find_next_trough n m e \<noteq> Inr None" by blast
    have tot: "\<forall>e \<in> set (eject_targets (config (m d))). \<not> playfield (m e) \<longrightarrow> (\<exists>r. find_next_trough n m e = Inr r)"
    proof (intro ballI impI)
      fix e assume "e \<in> set (eject_targets (config (m d)))" "\<not> playfield (m e)"
      with Suc.prems have "rk e < n" unfolding ranked_def by fastforce
      with Suc.prems show "\<exists>r. find_next_trough n m e = Inr r" using find_next_trough_total by blast
    qed
    from find_next_trough_loop_None[OF tot] ne k have "find_next_trough_loop n m (eject_targets (config (m d))) \<noteq> Inr None"
      by blast
    with False show ?thesis by simp
  qed
qed



lemma valid_path_shape:
  "valid_path m q \<Longrightarrow> \<exists>a b r. q = a # b # r \<and> b \<in> set (eject_targets (config (m a)))"
  by (induction m q rule: valid_path.induct) auto

lemma find_path_to_target_sound:
  "(\<forall>p. find_path_to_target n m d t = Inr (Some p) \<longrightarrow> valid_path m p \<and> hd p = d \<and> last p = t)"
  "(\<forall>p. find_path_to_target_loop n m d ts t = Inr (Some p) \<longrightarrow>
      (\<exists>e q. e \<in> set ts \<and> \<not> playfield (m e) \<and> p = d # q \<and> valid_path m q \<and> hd q = e \<and> last q = t))"
proof (induction n m d t and n m d ts t rule: find_path_to_target_find_path_to_target_loop.induct)
  case (1 m self target)
  then show ?case by simp
next
  case (2 n m self target)
  show ?case
  proof (cases "target \<in> set (eject_targets (config (m self)))")
    case True
    then show ?thesis by auto
  next
    case False
    show ?thesis
    proof (intro allI impI)
      fix p
      assume "find_path_to_target (Suc n) m self target = Inr (Some p)"
      with False 2 obtain e q where e: "e \<in> set (eject_targets (config (m self)))" "\<not> playfield (m e)"
        "p = self # q" "valid_path m q" "hd q = e" "last q = target" by auto
      then obtain r where "q = e # r" "r \<noteq> []" using valid_path_shape[of m q] by auto
      with e show "valid_path m p \<and> hd p = self \<and> last p = target" by auto
    qed
  qed
next
  case (3 n m self target)
  then show ?case by simp
next
  case (4 n m self target_device rest target)
  show ?case
  proof (intro allI impI)
    fix p
    assume a: "find_path_to_target_loop n m self (target_device # rest) target = Inr (Some p)"
    show "\<exists>e q. e \<in> set (target_device # rest) \<and> \<not> playfield (m e) \<and> p = self # q \<and>
            valid_path m q \<and> hd q = e \<and> last q = target"
    proof (cases "playfield (m target_device)")
      case True
      with a 4(1) show ?thesis by auto
    next
      case False
      show ?thesis
      proof (cases "find_path_to_target n m target_device target")
        case (Inl e)
        with a False show ?thesis by simp
      next
        case (Inr r)
        show ?thesis
        proof (cases r)
          case None
          with a False Inr 4(3) show ?thesis by auto
        next
          case (Some q)
          with a False Inr have "p = self # q" by simp
          moreover from 4(2)[OF False] Inr Some have "valid_path m q \<and> hd q = target_device \<and> last q = target"
            by simp
          ultimately show ?thesis using False by auto
        qed
      qed
    qed
  qed
qed

lemma find_path_to_target_loop_total:
  "\<forall>e \<in> set ts. \<not> playfield (m e) \<longrightarrow> (\<exists>r. find_path_to_target n m e t = Inr r) \<Longrightarrow>
   \<exists>r. find_path_to_target_loop n m d ts t = Inr r"
  by (induction ts) (auto split: sum.splits option.splits)

lemma find_path_to_target_loop_None:
  "\<forall>e \<in> set ts. \<not> playfield (m e) \<longrightarrow> (\<exists>r. find_path_to_target n m e t = Inr r) \<Longrightarrow>
   find_path_to_target_loop n m d ts t = Inr None \<longleftrightarrow>
     (\<forall>e \<in> set ts. \<not> playfield (m e) \<longrightarrow> find_path_to_target n m e t = Inr None)"
  by (induction ts) (auto split: sum.splits option.splits)

lemma find_path_to_target_total:
  "ranked rk m \<Longrightarrow> rk d < n \<Longrightarrow> \<exists>r. find_path_to_target n m d t = Inr r"
proof (induction n arbitrary: d)
  case 0
  then show ?case by simp
next
  case (Suc n)
  have "\<forall>e \<in> set (eject_targets (config (m d))). \<not> playfield (m e) \<longrightarrow> (\<exists>r. find_path_to_target n m e t = Inr r)"
  proof (intro ballI impI)
    fix e assume "e \<in> set (eject_targets (config (m d)))" "\<not> playfield (m e)"
    with Suc.prems have "rk e < n" unfolding ranked_def by fastforce
    with Suc show "\<exists>r. find_path_to_target n m e t = Inr r" by blast
  qed
  then show ?case using find_path_to_target_loop_total by simp
qed

lemma find_path_to_target_found:
  "ranked rk m \<Longrightarrow> rk d < n \<Longrightarrow> valid_path m p \<Longrightarrow> hd p = d \<Longrightarrow> last p = t \<Longrightarrow>
   find_path_to_target n m d t \<noteq> Inr None"
proof (induction n arbitrary: d p)
  case 0
  then show ?case by simp
next
  case (Suc n)
  show ?case
  proof (cases "t \<in> set (eject_targets (config (m d)))")
    case True
    then show ?thesis by simp
  next
    case False
    from Suc.prems obtain b rest where p: "p = d # b # rest" "b \<in> set (eject_targets (config (m d)))"
      using valid_path_shape[of m p] by auto
    with False Suc.prems have rest: "rest \<noteq> []" "\<not> playfield (m b)" "valid_path m (b # rest)" "last (b # rest) = t"
      by (auto split: if_splits)
    from p rest Suc.prems have rk: "rk b < n" unfolding ranked_def by fastforce
    with Suc rest have ne: "find_path_to_target n m b t \<noteq> Inr None" by (metis list.sel(1))
    have tot: "\<forall>e \<in> set (eject_targets (config (m d))). \<not> playfield (m e) \<longrightarrow> (\<exists>r. find_path_to_target n m e t = Inr r)"
    proof (intro ballI impI)
      fix e assume "e \<in> set (eject_targets (config (m d)))" "\<not> playfield (m e)"
      with Suc.prems have "rk e < n" unfolding ranked_def by fastforce
      with Suc.prems show "\<exists>r. find_path_to_target n m e t = Inr r" using find_path_to_target_total by blast
    qed
    from find_path_to_target_loop_None[OF tot] ne p rest have "find_path_to_target_loop n m d (eject_targets (config (m d))) t \<noteq> Inr None"
      by blast
    with False show ?thesis by simp
  qed
qed

lemma find_path_to_target_loop_first:
  "find_path_to_target_loop n m d ts t = Inr (Some p) \<Longrightarrow>
   \<exists>i q. i < length ts \<and> \<not> playfield (m (ts ! i)) \<and> find_path_to_target n m (ts ! i) t = Inr (Some q) \<and> p = d # q \<and>
      (\<forall>j < i. playfield (m (ts ! j)) \<or> find_path_to_target n m (ts ! j) t = Inr None)"
proof (induction ts)
  case Nil
  then show ?case by simp
next
  case (Cons e ts)
  show ?case
  proof (cases "\<not> playfield (m e) \<and> (\<exists>q. find_path_to_target n m e t = Inr (Some q))")
    case True
    then obtain q where "find_path_to_target n m e t = Inr (Some q)" by blast
    with True Cons.prems have "0 < length (e # ts) \<and> \<not> playfield (m ((e # ts) ! 0)) \<and>
       find_path_to_target n m ((e # ts) ! 0) t = Inr (Some q) \<and> p = d # q \<and>
       (\<forall>j < 0. playfield (m ((e # ts) ! j)) \<or> find_path_to_target n m ((e # ts) ! j) t = Inr None)"
      by auto
    then show ?thesis by blast
  next
    case False
    with Cons.prems have skip: "playfield (m e) \<or> find_path_to_target n m e t = Inr None"
       and "find_path_to_target_loop n m d ts t = Inr (Some p)"
      by (auto split: sum.splits option.splits if_splits)
    with Cons.IH obtain i q where i: "i < length ts" "\<not> playfield (m (ts ! i))"
       "find_path_to_target n m (ts ! i) t = Inr (Some q)" "p = d # q"
       "\<forall>j < i. playfield (m (ts ! j)) \<or> find_path_to_target n m (ts ! j) t = Inr None" by blast
    have "\<forall>j < Suc i. playfield (m ((e # ts) ! j)) \<or> find_path_to_target n m ((e # ts) ! j) t = Inr None"
    proof (intro allI impI)
      fix j assume "j < Suc i"
      then show "playfield (m ((e # ts) ! j)) \<or> find_path_to_target n m ((e # ts) ! j) t = Inr None"
        using skip i(5) by (cases j) auto
    qed
    with i have "Suc i < length (e # ts) \<and> \<not> playfield (m ((e # ts) ! Suc i)) \<and>
       find_path_to_target n m ((e # ts) ! Suc i) t = Inr (Some q) \<and> p = d # q \<and>
       (\<forall>j < Suc i. playfield (m ((e # ts) ! j)) \<or> find_path_to_target n m ((e # ts) ! j) t = Inr None)"
      by simp
    then show ?thesis by blast
  qed
qed


lemma find_next_trough_loop_first:
  "find_next_trough_loop n m ts = Inr (Some t) \<Longrightarrow>
   \<exists>i. i < length ts \<and> \<not> playfield (m (ts ! i)) \<and> find_next_trough n m (ts ! i) = Inr (Some t) \<and>
      (\<forall>j < i. playfield (m (ts ! j)) \<or> find_next_trough n m (ts ! j) = Inr None)"
proof (induction ts)
  case Nil
  then show ?case by simp
next
  case (Cons e ts)
  show ?case
  proof (cases "\<not> playfield (m e) \<and> find_next_trough n m e = Inr (Some t)")
    case True
    then have "0 < length (e # ts) \<and> \<not> playfield (m ((e # ts) ! 0)) \<and>
       find_next_trough n m ((e # ts) ! 0) = Inr (Some t) \<and>
       (\<forall>j < 0. playfield (m ((e # ts) ! j)) \<or> find_next_trough n m ((e # ts) ! j) = Inr None)"
      by auto
    then show ?thesis by blast
  next
    case False
    with Cons.prems have skip: "playfield (m e) \<or> find_next_trough n m e = Inr None"
       and "find_next_trough_loop n m ts = Inr (Some t)"
      by (auto split: sum.splits option.splits if_splits)
    with Cons.IH obtain i where i: "i < length ts" "\<not> playfield (m (ts ! i))"
       "find_next_trough n m (ts ! i) = Inr (Some t)"
       "\<forall>j < i. playfield (m (ts ! j)) \<or> find_next_trough n m (ts ! j) = Inr None" by blast
    have "\<forall>j < Suc i. playfield (m ((e # ts) ! j)) \<or> find_next_trough n m ((e # ts) ! j) = Inr None"
    proof (intro allI impI)
      fix j assume "j < Suc i"
      then show "playfield (m ((e # ts) ! j)) \<or> find_next_trough n m ((e # ts) ! j) = Inr None"
        using skip i(4) by (cases j) auto
    qed
    with i have "Suc i < length (e # ts) \<and> \<not> playfield (m ((e # ts) ! Suc i)) \<and>
       find_next_trough n m ((e # ts) ! Suc i) = Inr (Some t) \<and>
       (\<forall>j < Suc i. playfield (m ((e # ts) ! j)) \<or> find_next_trough n m ((e # ts) ! j) = Inr None)"
      by simp
    then show ?thesis by blast
  qed
qed

lemmas machine_simps = machine_of_def node_def dev0_def cfg0_def

lemma find_next_trough_cycle: "find_next_trough n cycle_machine ''a'' = Inl RecursionError \<and>
   find_next_trough n cycle_machine ''b'' = Inl RecursionError"
  by (induction n) (simp_all add: cycle_machine_def machine_simps)

lemma find_path_to_target_cycle: "find_path_to_target n cycle_machine ''a'' ''t'' = Inl RecursionError \<and>
   find_path_to_target n cycle_machine ''b'' ''t'' = Inl RecursionError"
  by (induction n) (simp_all add: cycle_machine_def machine_simps)

lemma ranked_fork: "ranked line_rank fork_machine"
  by (auto simp: ranked_def line_rank_def fork_machine_def machine_simps split: if_splits)

lemma ranked_line: "ranked line_rank line_machine"
  by (auto simp: ranked_def line_rank_def line_machine_def machine_simps split: if_splits)

lemma ranked_shortcut: "ranked line_rank shortcut_machine"
  by (auto simp: ranked_def line_rank_def shortcut_machine_def machine_simps split: if_splits)


text \<open>
  C7: whenever \<open>find_one_available_ball\<close>, called by a requesting device with the
  default empty path, returns a path, no device occurs on it twice, the requester
  occurs exactly once, as the last element, and the first device has an available ball.
\<close>

theorem C7_available_ball_path:
  assumes "find_one_available_ball n m requester [] = Inr (Some p)"
  shows "distinct p \<and> last p = requester \<and> count_list p requester = 1 \<and>
         0 < available_balls (m (hd p))"
proof -
  from assms find_one_available_ball_shape(1) [of n m requester "[]" p]
  obtain pre where p: "p = pre @ [requester]" and d: "distinct p"
    and a: "0 < available_balls (m (hd p))" by auto
  from p d have "count_list p requester = 1"
    by (simp add: count_list_0_iff)
  with p d a show ?thesis by simp
qed

theorem C7_available_ball_path_witness:
  "find_one_available_ball 3 line_machine ''c'' [] = Inr (Some [''a'', ''b'', ''c'']) \<and>
   distinct [''a'', ''b'', ''c''] \<and> last [''a'', ''b'', ''c''] = ''c'' \<and>
   count_list [''a'', ''b'', ''c''] ''c'' = 1 \<and>
   0 < available_balls (line_machine (hd [''a'', ''b'', ''c'']))"
proof -
  have h: "find_one_available_ball 3 line_machine ''c'' [] = Inr (Some [''a'', ''b'', ''c''])"
    by (simp add: eval_nat_numeral line_machine_def machine_simps)
  from C7_available_ball_path [OF h] h show ?thesis by simp
qed

text \<open>
  C9, as stated, fails twice. On \<open>fork_machine\<close> the trough t2 is one eject away from a,
  yet the search returns t1, which is two ejects away: the first trough found depth
  first is not the nearest. On \<open>cycle_machine\<close>, where no trough is reachable, the search
  does not return false: with the interpreter's limit of 1000 nested calls (and with
  any other limit) it ends in \<open>RecursionError\<close>.
\<close>

theorem C9_nearest_trough_counterexample:
  "find_next_trough 1000 fork_machine ''a'' = Inr (Some ''t1'') \<and>
   \<not> hops_to 1 fork_machine ''a'' ''t1'' \<and>
   hops_to 1 fork_machine ''a'' ''t2'' \<and> ''trough'' \<in> set (tags (fork_machine ''t2'')) \<and>
   find_next_trough 1000 cycle_machine ''a'' = Inl RecursionError"
proof -
  have "find_next_trough (Suc (Suc (Suc n))) fork_machine ''a'' = Inr (Some ''t1'')" for n
    by (simp add: fork_machine_def machine_simps)
  from this [of 997] have "find_next_trough 1000 fork_machine ''a'' = Inr (Some ''t1'')" by simp
  moreover have "\<not> hops_to 1 fork_machine ''a'' ''t1'' \<and> hops_to 1 fork_machine ''a'' ''t2''"
    by (simp add: eval_nat_numeral fork_machine_def machine_simps)
  moreover have "''trough'' \<in> set (tags (fork_machine ''t2''))"
    by (simp add: fork_machine_def machine_simps)
  ultimately show ?thesis using find_next_trough_cycle [of 1000] by simp
qed

text \<open>
  C9 (amended): \<open>find_next_trough\<close> returns the device itself when it carries the tag
  'trough'. Otherwise it searches the eject targets that are not playfields depth
  first in declared order and returns the first trough found: the result of the first
  such target whose own search finds one, every earlier target being a playfield or
  finding none. A returned device is tagged 'trough' and is reached along eject
  targets without entering a playfield; it need not be the nearest. On a graph without
  cycles, with enough call depth, the search returns, and it returns false exactly
  when no trough is reachable.
\<close>

theorem C9_find_next_trough_depth_first:
  "(''trough'' \<in> set (tags (m d)) \<longrightarrow> find_next_trough (Suc n) m d = Inr (Some d)) \<and>
   (find_next_trough n m d = Inr (Some t) \<longrightarrow>
      ''trough'' \<in> set (tags (m t)) \<and> (\<exists>k. hops_to k m d t)) \<and>
   (''trough'' \<notin> set (tags (m d)) \<and> find_next_trough (Suc n) m d = Inr (Some t) \<longrightarrow>
      (\<exists>i. i < length (eject_targets (config (m d))) \<and>
         \<not> playfield (m (eject_targets (config (m d)) ! i)) \<and>
         find_next_trough n m (eject_targets (config (m d)) ! i) = Inr (Some t) \<and>
         (\<forall>j < i. playfield (m (eject_targets (config (m d)) ! j)) \<or>
            find_next_trough n m (eject_targets (config (m d)) ! j) = Inr None))) \<and>
   (ranked rk m \<and> rk d < n \<longrightarrow>
      (\<exists>r. find_next_trough n m d = Inr r) \<and>
      (find_next_trough n m d = Inr None \<longleftrightarrow>
         \<not> (\<exists>t k. ''trough'' \<in> set (tags (m t)) \<and> hops_to k m d t)))"
proof (intro conjI impI)
  assume "''trough'' \<in> set (tags (m d))"
  then show "find_next_trough (Suc n) m d = Inr (Some d)" by simp
next
  assume "find_next_trough n m d = Inr (Some t)"
  with find_next_trough_sound(1) [of n m d t]
  show "''trough'' \<in> set (tags (m t))" and "\<exists>k. hops_to k m d t" by blast+
next
  assume "''trough'' \<notin> set (tags (m d)) \<and> find_next_trough (Suc n) m d = Inr (Some t)"
  then have "find_next_trough_loop n m (eject_targets (config (m d))) = Inr (Some t)" by auto
  then show "\<exists>i. i < length (eject_targets (config (m d))) \<and>
         \<not> playfield (m (eject_targets (config (m d)) ! i)) \<and>
         find_next_trough n m (eject_targets (config (m d)) ! i) = Inr (Some t) \<and>
         (\<forall>j < i. playfield (m (eject_targets (config (m d)) ! j)) \<or>
            find_next_trough n m (eject_targets (config (m d)) ! j) = Inr None)"
    by (rule find_next_trough_loop_first)
next
  assume "ranked rk m \<and> rk d < n"
  then show "\<exists>r. find_next_trough n m d = Inr r" using find_next_trough_total by blast
next
  assume r: "ranked rk m \<and> rk d < n"
  show "find_next_trough n m d = Inr None \<longleftrightarrow>
         \<not> (\<exists>t k. ''trough'' \<in> set (tags (m t)) \<and> hops_to k m d t)"
  proof
    assume "find_next_trough n m d = Inr None"
    with r show "\<not> (\<exists>t k. ''trough'' \<in> set (tags (m t)) \<and> hops_to k m d t)"
      using find_next_trough_found by blast
  next
    assume none: "\<not> (\<exists>t k. ''trough'' \<in> set (tags (m t)) \<and> hops_to k m d t)"
    from r obtain res where res: "find_next_trough n m d = Inr res"
      using find_next_trough_total by blast
    show "find_next_trough n m d = Inr None"
    proof (cases res)
      case None
      with res show ?thesis by simp
    next
      case (Some t)
      with res find_next_trough_sound(1) [of n m d t] none show ?thesis by blast
    qed
  qed
qed

theorem C9_find_next_trough_depth_first_witness:
  "find_next_trough (Suc 0) fork_machine ''t1'' = Inr (Some ''t1'') \<and>
   find_next_trough 3 fork_machine ''a'' = Inr (Some ''t1'') \<and>
   ''trough'' \<in> set (tags (fork_machine ''t1'')) \<and> (\<exists>k. hops_to k fork_machine ''a'' ''t1'') \<and>
   (\<exists>i. i < length (eject_targets (config (fork_machine ''a''))) \<and>
      find_next_trough 2 fork_machine (eject_targets (config (fork_machine ''a'')) ! i)
        = Inr (Some ''t1'')) \<and>
   ranked line_rank fork_machine \<and> line_rank ''a'' < 3 \<and>
   find_next_trough 3 line_machine ''a'' = Inr None \<and>
   \<not> (\<exists>t k. ''trough'' \<in> set (tags (line_machine t)) \<and> hops_to k line_machine ''a'' t)"
proof -
  have t1: "''trough'' \<in> set (tags (fork_machine ''t1''))"
    by (simp add: fork_machine_def machine_simps)
  have a: "find_next_trough 3 fork_machine ''a'' = Inr (Some ''t1'')"
    by (simp add: eval_nat_numeral fork_machine_def machine_simps)
  have a': "''trough'' \<notin> set (tags (fork_machine ''a'')) \<and>
            find_next_trough (Suc 2) fork_machine ''a'' = Inr (Some ''t1'')"
    by (simp add: eval_nat_numeral fork_machine_def machine_simps)
  have l: "find_next_trough 3 line_machine ''a'' = Inr None"
    by (simp add: eval_nat_numeral line_machine_def machine_simps)
  have rl: "ranked line_rank line_machine \<and> line_rank ''a'' < 3"
    by (simp add: ranked_line line_rank_def)
  have rf: "ranked line_rank fork_machine \<and> line_rank ''a'' < 3"
    by (simp add: ranked_fork line_rank_def)
  from C9_find_next_trough_depth_first [of fork_machine "''t1''" 0 "''t1''" line_rank] t1
  have c1: "find_next_trough (Suc 0) fork_machine ''t1'' = Inr (Some ''t1'')" by blast
  from C9_find_next_trough_depth_first [of fork_machine "''a''" 3 "''t1''" line_rank] a
  have c2: "\<exists>k. hops_to k fork_machine ''a'' ''t1''" by blast
  from C9_find_next_trough_depth_first [of fork_machine "''a''" 2 "''t1''" line_rank] a'
  have c3: "\<exists>i. i < length (eject_targets (config (fork_machine ''a''))) \<and>
      find_next_trough 2 fork_machine (eject_targets (config (fork_machine ''a'')) ! i)
        = Inr (Some ''t1'')" by blast
  from C9_find_next_trough_depth_first [of line_machine "''a''" 3 "''t1''" line_rank] rl l
  have c4: "\<not> (\<exists>t k. ''trough'' \<in> set (tags (line_machine t)) \<and> hops_to k line_machine ''a'' t)"
    by blast
  from c1 a t1 c2 c3 rf l c4 show ?thesis by blast
qed



text \<open>
  C6, as stated, fails twice. On \<open>shortcut_machine\<close> the depth-first search in declared
  order finds the path a, b, t first (b stands before t among a's eject targets), while
  \<open>find_path_to_target\<close> returns the direct path a, t. On \<open>cycle_machine\<close>, where no
  path to t exists, the search does not return an empty result: with the interpreter's
  limit of 1000 nested calls (and with any other limit) it ends in \<open>RecursionError\<close>.
\<close>

theorem C6_depth_first_order_counterexample:
  "find_path_to_target 1000 shortcut_machine ''a'' ''t'' = Inr (Some [''a'', ''t'']) \<and>
   spec_depth_first_path 1000 shortcut_machine ''a'' ''t'' = Inr (Some [''a'', ''b'', ''t'']) \<and>
   find_path_to_target 1000 cycle_machine ''a'' ''t'' = Inl RecursionError"
proof -
  have "find_path_to_target (Suc n) shortcut_machine ''a'' ''t'' = Inr (Some [''a'', ''t''])" for n
    by (simp add: shortcut_machine_def machine_simps)
  from this [of 999]
  have code: "find_path_to_target 1000 shortcut_machine ''a'' ''t'' = Inr (Some [''a'', ''t''])"
    by simp
  have "spec_depth_first_path (Suc (Suc n)) shortcut_machine ''a'' ''t''
          = Inr (Some [''a'', ''b'', ''t''])" for n
    by (simp add: shortcut_machine_def machine_simps)
  from this [of 998]
  have spec: "spec_depth_first_path 1000 shortcut_machine ''a'' ''t''
          = Inr (Some [''a'', ''b'', ''t''])"
    by simp
  from code spec find_path_to_target_cycle [of 1000] show ?thesis by simp
qed

text \<open>
  C6 (amended): at every device \<open>find_path_to_target(t)\<close> first returns the direct path
  [self, t] when t is among its eject targets, wherever t stands in the list. Otherwise
  it searches the eject targets that are not playfields depth first in declared order
  and returns self followed by the first path found: the path of the first such target
  whose own search finds one, every earlier target being a playfield or finding none.
  A returned path leads from self to t along eject targets and no device strictly
  inside it is a playfield. On a graph without cycles, with enough call depth, the
  search returns, and it returns an empty result exactly when no such path exists.
\<close>

theorem C6_find_path_to_target_direct_then_depth_first:
  "(t \<in> set (eject_targets (config (m d))) \<longrightarrow>
      find_path_to_target (Suc n) m d t = Inr (Some [d, t])) \<and>
   (t \<notin> set (eject_targets (config (m d))) \<and> find_path_to_target (Suc n) m d t = Inr (Some p) \<longrightarrow>
      (\<exists>i q. i < length (eject_targets (config (m d))) \<and>
         \<not> playfield (m (eject_targets (config (m d)) ! i)) \<and>
         find_path_to_target n m (eject_targets (config (m d)) ! i) t = Inr (Some q) \<and>
         p = d # q \<and>
         (\<forall>j < i. playfield (m (eject_targets (config (m d)) ! j)) \<or>
            find_path_to_target n m (eject_targets (config (m d)) ! j) t = Inr None))) \<and>
   (find_path_to_target n m d t = Inr (Some p) \<longrightarrow> valid_path m p \<and> hd p = d \<and> last p = t) \<and>
   (ranked rk m \<and> rk d < n \<longrightarrow>
      (\<exists>r. find_path_to_target n m d t = Inr r) \<and>
      (find_path_to_target n m d t = Inr None \<longleftrightarrow>
         \<not> (\<exists>q. valid_path m q \<and> hd q = d \<and> last q = t)))"
proof (intro conjI impI)
  assume "t \<in> set (eject_targets (config (m d)))"
  then show "find_path_to_target (Suc n) m d t = Inr (Some [d, t])" by simp
next
  assume "t \<notin> set (eject_targets (config (m d))) \<and>
          find_path_to_target (Suc n) m d t = Inr (Some p)"
  then have "find_path_to_target_loop n m d (eject_targets (config (m d))) t = Inr (Some p)"
    by auto
  then show "\<exists>i q. i < length (eject_targets (config (m d))) \<and>
         \<not> playfield (m (eject_targets (config (m d)) ! i)) \<and>
         find_path_to_target n m (eject_targets (config (m d)) ! i) t = Inr (Some q) \<and>
         p = d # q \<and>
         (\<forall>j < i. playfield (m (eject_targets (config (m d)) ! j)) \<or>
            find_path_to_target n m (eject_targets (config (m d)) ! j) t = Inr None)"
    by (rule find_path_to_target_loop_first)
next
  assume "find_path_to_target n m d t = Inr (Some p)"
  with find_path_to_target_sound(1) [of n m d t]
  show "valid_path m p" and "hd p = d" and "last p = t" by blast+
next
  assume "ranked rk m \<and> rk d < n"
  then show "\<exists>r. find_path_to_target n m d t = Inr r" using find_path_to_target_total by blast
next
  assume r: "ranked rk m \<and> rk d < n"
  show "find_path_to_target n m d t = Inr None \<longleftrightarrow>
         \<not> (\<exists>q. valid_path m q \<and> hd q = d \<and> last q = t)"
  proof
    assume "find_path_to_target n m d t = Inr None"
    with r show "\<not> (\<exists>q. valid_path m q \<and> hd q = d \<and> last q = t)"
      using find_path_to_target_found by blast
  next
    assume none: "\<not> (\<exists>q. valid_path m q \<and> hd q = d \<and> last q = t)"
    from r obtain res where res: "find_path_to_target n m d t = Inr res"
      using find_path_to_target_total by blast
    show "find_path_to_target n m d t = Inr None"
    proof (cases res)
      case None
      with res show ?thesis by simp
    next
      case (Some q)
      with res find_path_to_target_sound(1) [of n m d t] none show ?thesis by blast
    qed
  qed
qed

theorem C6_find_path_to_target_direct_then_depth_first_witness:
  "find_path_to_target (Suc 0) shortcut_machine ''a'' ''t'' = Inr (Some [''a'', ''t'']) \<and>
   find_path_to_target 3 line_machine ''a'' ''c'' = Inr (Some [''a'', ''b'', ''c'']) \<and>
   (\<exists>i q. i < length (eject_targets (config (line_machine ''a''))) \<and>
      find_path_to_target 2 line_machine (eject_targets (config (line_machine ''a'')) ! i) ''c''
        = Inr (Some q) \<and> [''a'', ''b'', ''c''] = ''a'' # q) \<and>
   valid_path line_machine [''a'', ''b'', ''c''] \<and>
   ranked line_rank line_machine \<and> line_rank ''c'' < 3 \<and>
   find_path_to_target 3 line_machine ''c'' ''a'' = Inr None \<and>
   \<not> (\<exists>q. valid_path line_machine q \<and> hd q = ''c'' \<and> last q = ''a'')"
proof -
  have e: "''t'' \<in> set (eject_targets (config (shortcut_machine ''a'')))"
    by (simp add: shortcut_machine_def machine_simps)
  have a: "find_path_to_target 3 line_machine ''a'' ''c'' = Inr (Some [''a'', ''b'', ''c''])"
    by (simp add: eval_nat_numeral line_machine_def machine_simps)
  have a': "''c'' \<notin> set (eject_targets (config (line_machine ''a''))) \<and>
            find_path_to_target (Suc 2) line_machine ''a'' ''c'' = Inr (Some [''a'', ''b'', ''c''])"
    by (simp add: eval_nat_numeral line_machine_def machine_simps)
  have l: "find_path_to_target 3 line_machine ''c'' ''a'' = Inr None"
    by (simp add: eval_nat_numeral line_machine_def machine_simps)
  have rl: "ranked line_rank line_machine \<and> line_rank ''c'' < 3"
    by (simp add: ranked_line line_rank_def)
  from C6_find_path_to_target_direct_then_depth_first
         [of "''t''" shortcut_machine "''a''" 0 "[]" line_rank] e
  have c1: "find_path_to_target (Suc 0) shortcut_machine ''a'' ''t'' = Inr (Some [''a'', ''t''])"
    by blast
  from C6_find_path_to_target_direct_then_depth_first
         [of "''c''" line_machine "''a''" 2 "[''a'', ''b'', ''c'']" line_rank] a'
  have c2: "\<exists>i q. i < length (eject_targets (config (line_machine ''a''))) \<and>
      find_path_to_target 2 line_machine (eject_targets (config (line_machine ''a'')) ! i) ''c''
        = Inr (Some q) \<and> [''a'', ''b'', ''c''] = ''a'' # q" by blast
  from C6_find_path_to_target_direct_then_depth_first
         [of "''c''" line_machine "''a''" 3 "[''a'', ''b'', ''c'']" line_rank] a
  have c3: "valid_path line_machine [''a'', ''b'', ''c'']" by blast
  from C6_find_path_to_target_direct_then_depth_first
         [of "''a''" line_machine "''c''" 3 "[]" line_rank] rl l
  have c4: "\<not> (\<exists>q. valid_path line_machine q \<and> hd q = ''c'' \<and> last q = ''a'')" by blast
  from c1 a c2 c3 rl l c4 show ?thesis by blast
qed

subsection \<open>Setting up an eject chain\<close>




lemma new_targets_Cons: "new_targets (a # b # rest) d = (if a = d then [Some b] else []) @ new_targets (b # rest) d"
  by (simp add: new_targets_def)

lemma new_targets_single [simp]: "new_targets [a] d = []"
  by (simp add: new_targets_def)

lemma setup_eject_chain_next_hop_effect:
  "setup_eject_chain_next_hop m self path pc = Inr m' \<Longrightarrow>
     actions m' = actions m \<and>
     (\<forall>d. available_balls (devs m' d) = available_balls (devs m d) \<and>
          config (devs m' d) = config (devs m d) \<and>
          (\<exists>new. eject_queue (devs m' d) = eject_queue (devs m d) @ new \<and>
                 map fst new = new_targets (self # path) d))"
proof (induction path arbitrary: m self m')
  case Nil
  then show ?case by simp
next
  case (Cons next_hop path)
  let ?cfg = "config (devs m self)"
  from Cons.prems have ok: "next_hop \<in> set (eject_targets ?cfg)"
    by (auto simp: Let_def split: if_splits)
  from Cons.prems ok obtain ms where ms: "map_of (eject_timeouts ?cfg) next_hop = Some ms"
    by (auto simp: Let_def split: option.splits)
  define eject where "eject = \<lparr> ob_target = next_hop, ob_eject_timeout = of_int ms / 1000,
                         ob_max_tries = max_eject_attempts ?cfg, ob_mechanical = pc \<rparr>"
  define entry where "entry = (if pc \<and> (mechanical_eject ?cfg \<or> truthy (player_controlled_eject_event ?cfg))
                       then (Some next_hop, mechanical_eject ?cfg, player_controlled_eject_event ?cfg)
                       else (Some next_hop, False, None))"
  define m2 where "m2 = upd_dev self (\<lambda>d. d\<lparr>eject_queue := eject_queue d @ [entry]\<rparr>)
       (upd_dev self (\<lambda>d. d\<lparr>outgoing_ejects := outgoing_ejects d @ [eject]\<rparr>) m)"
  have fst_entry: "fst entry = Some next_hop" by (simp add: entry_def)
  define inner where
    "inner = (if length path > 0 then setup_eject_chain_next_hop m2 next_hop path pc else Inr m2)"
  have eq: "setup_eject_chain_next_hop m self (next_hop # path) pc =
      (case inner of Inl e \<Rightarrow> Inl e
       | Inr m3 \<Rightarrow> Inr (upd_dev self (\<lambda>d. d\<lparr>eject_request_condition := True\<rparr>) m3))"
    using ok ms by (simp add: Let_def m2_def entry_def eject_def inner_def)
  from Cons.prems eq obtain m3 where inner: "inner = Inr m3"
     and m': "m' = upd_dev self (\<lambda>d. d\<lparr>eject_request_condition := True\<rparr>) m3"
    by (cases inner) auto
  from inner have
     m3: "(if length path > 0 then setup_eject_chain_next_hop m2 next_hop path pc else Inr m2) = Inr m3"
    by (simp add: inner_def)
  have m2_facts: "actions m2 = actions m"
     "\<And>d. available_balls (devs m2 d) = available_balls (devs m d)"
     "\<And>d. config (devs m2 d) = config (devs m d)"
     "\<And>d. eject_queue (devs m2 d) = eject_queue (devs m d) @ (if d = self then [entry] else [])"
    by (auto simp: m2_def upd_dev_def)
  have m3_facts: "actions m3 = actions m2 \<and>
     (\<forall>d. available_balls (devs m3 d) = available_balls (devs m2 d) \<and>
          config (devs m3 d) = config (devs m2 d) \<and>
          (\<exists>new. eject_queue (devs m3 d) = eject_queue (devs m2 d) @ new \<and>
                 map fst new = new_targets (next_hop # path) d))"
  proof (cases "length path > 0")
    case True
    with m3 Cons.IH show ?thesis by simp
  next
    case False
    with m3 show ?thesis by simp
  qed
  show ?case
  proof (intro conjI allI)
    show "actions m' = actions m" using m3_facts m2_facts m' by (simp add: upd_dev_def)
  next
    fix d
    show "available_balls (devs m' d) = available_balls (devs m d)"
      using m3_facts m2_facts m' by (simp add: upd_dev_def)
    show "config (devs m' d) = config (devs m d)"
      using m3_facts m2_facts m' by (simp add: upd_dev_def)
    from m3_facts obtain new where new: "eject_queue (devs m3 d) = eject_queue (devs m2 d) @ new"
        "map fst new = new_targets (next_hop # path) d" by blast
    have "eject_queue (devs m' d) = eject_queue (devs m3 d)" using m' by (simp add: upd_dev_def)
    with new m2_facts(4)[of d]
    have "eject_queue (devs m' d) = eject_queue (devs m d) @ ((if d = self then [entry] else []) @ new)"
      by simp
    moreover have "map fst ((if d = self then [entry] else []) @ new) = new_targets (self # next_hop # path) d"
      using new(2) fst_entry by (auto simp: new_targets_Cons)
    ultimately show "\<exists>new. eject_queue (devs m' d) = eject_queue (devs m d) @ new \<and>
                 map fst new = new_targets (self # next_hop # path) d" by blast
  qed
qed

lemma setup_eject_chain_next_hop_accepts:
  "setup_eject_chain_next_hop m self path pc = Inr m' \<Longrightarrow> path \<noteq> []"
  by (cases path) auto

lemma setup_eject_chain_effect:
  assumes "setup_eject_chain m self path pc = Inr m'"
  shows "0 < available_balls (devs m self) \<and> hd path = self \<and> 2 \<le> length path \<and>
     actions m' = actions m @ [PostBoolean ''balldevice_balls_available''] \<and>
     (\<forall>d. available_balls (devs m' d) =
            available_balls (devs m d) - (if d = self then 1 else 0) + (if d = last path then 1 else 0) \<and>
          config (devs m' d) = config (devs m d) \<and>
          (\<exists>new. eject_queue (devs m' d) = eject_queue (devs m d) @ new \<and>
                 map fst new = new_targets path d))"
proof -
  from assms have av: "0 < available_balls (devs m self)"
    by (auto simp: setup_eject_chain_def split: if_splits)
  define m1 where "m1 = upd_dev self (\<lambda>d. d\<lparr>available_balls := available_balls d - 1\<rparr>) m"
  from assms av obtain rest where path: "path = self # rest"
    by (cases path) (auto simp: setup_eject_chain_def Let_def split: if_splits)
  have eq0: "setup_eject_chain m self (self # rest) pc =
      (case setup_eject_chain_next_hop m1 self rest pc of Inl e \<Rightarrow> Inl e
       | Inr m2 \<Rightarrow> Inr (act (PostBoolean ''balldevice_balls_available'')
                 (upd_dev (last (self # rest))
                    (\<lambda>d. d\<lparr>available_balls := available_balls d + 1\<rparr>) m2)))"
    using av by (simp add: setup_eject_chain_def Let_def m1_def split: sum.splits
                   del: setup_eject_chain_next_hop.simps last.simps)
  have eq: "setup_eject_chain m self path pc =
      (case setup_eject_chain_next_hop m1 self rest pc of Inl e \<Rightarrow> Inl e
       | Inr m2 \<Rightarrow> Inr (act (PostBoolean ''balldevice_balls_available'')
                 (upd_dev (last path) (\<lambda>d. d\<lparr>available_balls := available_balls d + 1\<rparr>) m2)))"
    unfolding path by (fact eq0)
  from assms eq obtain m2 where m2: "setup_eject_chain_next_hop m1 self rest pc = Inr m2"
     and m': "m' = act (PostBoolean ''balldevice_balls_available'')
                 (upd_dev (last path) (\<lambda>d. d\<lparr>available_balls := available_balls d + 1\<rparr>) m2)"
    by (cases "setup_eject_chain_next_hop m1 self rest pc") auto
  from m2 have rest: "rest \<noteq> []" by (rule setup_eject_chain_next_hop_accepts)
  note e = setup_eject_chain_next_hop_effect[OF m2]
  have m1_facts: "actions m1 = actions m"
     "\<And>d. available_balls (devs m1 d) = available_balls (devs m d) - (if d = self then 1 else 0)"
     "\<And>d. config (devs m1 d) = config (devs m d)"
     "\<And>d. eject_queue (devs m1 d) = eject_queue (devs m d)"
    by (auto simp: m1_def upd_dev_def)
  show ?thesis
  proof (intro conjI allI)
    show "0 < available_balls (devs m self)" by (rule av)
    show "hd path = self" using path by simp
    show "2 \<le> length path" using path rest by (cases rest) auto
    show "actions m' = actions m @ [PostBoolean ''balldevice_balls_available'']"
      using m' e m1_facts by (simp add: act_def upd_dev_def)
  next
    fix d
    show "available_balls (devs m' d) =
            available_balls (devs m d) - (if d = self then 1 else 0) + (if d = last path then 1 else 0)"
      using m' e by (simp add: act_def upd_dev_def m1_facts)
    show "config (devs m' d) = config (devs m d)"
      using m' e by (simp add: act_def upd_dev_def m1_facts)
    from e obtain new where new: "eject_queue (devs m2 d) = eject_queue (devs m1 d) @ new"
       "map fst new = new_targets (self # rest) d" by blast
    have "eject_queue (devs m' d) = eject_queue (devs m2 d)"
      using m' by (simp add: act_def upd_dev_def)
    with new m1_facts(4) [of d] path
    have "eject_queue (devs m' d) = eject_queue (devs m d) @ new \<and>
                 map fst new = new_targets path d" by simp
    then show "\<exists>new. eject_queue (devs m' d) = eject_queue (devs m d) @ new \<and>
                 map fst new = new_targets path d" by blast
  qed
qed


lemma new_targets_notin:
  "d \<notin> set (butlast path) \<Longrightarrow> new_targets path d = []"
proof (induction path rule: induct_list012)
  case 1
  then show ?case by (simp add: new_targets_def)
next
  case (2 a)
  then show ?case by simp
next
  case (3 a b rest)
  then show ?case by (auto simp: new_targets_Cons)
qed

lemma new_targets_distinct:
  "distinct path \<Longrightarrow> Suc i < length path \<Longrightarrow> new_targets path (path ! i) = [Some (path ! Suc i)]"
proof (induction path arbitrary: i rule: induct_list012)
  case 1
  then show ?case by simp
next
  case (2 a)
  then show ?case by simp
next
  case (3 a b rest)
  show ?case
  proof (cases i)
    case 0
    from 3(3) have "a \<notin> set (butlast (b # rest))" by (auto dest: in_set_butlastD)
    then have "new_targets (b # rest) a = []" by (rule new_targets_notin)
    with 0 show ?thesis by (simp add: new_targets_Cons)
  next
    case (Suc j)
    with 3(4) have j: "Suc j < length (b # rest)" by simp
    then have "(b # rest) ! j \<in> set (b # rest)" by (metis Suc_lessD nth_mem)
    with 3(3) have "a \<noteq> (b # rest) ! j" by auto
    moreover from 3(3) have "distinct (b # rest)" by simp
    from 3(2) [OF this j] have "new_targets (b # rest) ((b # rest) ! j) = [Some ((b # rest) ! Suc j)]" .
    ultimately show ?thesis using Suc by (simp add: new_targets_Cons)
  qed
qed

text \<open>
  C5, as stated, fails on a path that visits a device twice, which \<open>setup_eject_chain\<close>
  accepts when the eject targets form a cycle. On \<open>cycle_machine\<close> the path a, b, a is
  accepted and leaves the available balls of its source a as they were (one taken, one
  added); the path a, b, a, b is accepted and gives a two new queue entries.
\<close>

theorem C5_eject_chain_counterexample:
  "(case setup_eject_chain (start cycle_machine) ''a'' [''a'', ''b'', ''a''] False of
      Inl e \<Rightarrow> False
    | Inr m' \<Rightarrow> available_balls (devs m' ''a'') = available_balls (cycle_machine ''a'')) \<and>
   (case setup_eject_chain (start cycle_machine) ''a'' [''a'', ''b'', ''a'', ''b''] False of
      Inl e \<Rightarrow> False
    | Inr m' \<Rightarrow> length (eject_queue (devs m' ''a'')) =
                 length (eject_queue (cycle_machine ''a'')) + 2)"
  by code_simp

text \<open>
  C5 (amended): for every path d0, ..., dn of pairwise distinct devices accepted by
  \<open>setup_eject_chain\<close> (which implies n \<ge> 1, that the path starts at the device called
  and that this source has an available ball), the available balls of the source
  decrease by 1, those of the final target increase by 1 and those of every other
  device, the intermediate hops among them, are unchanged; every hop before the last
  gets exactly one new entry at the end of its eject queue, for the hop after it, and
  no other queue changes.
\<close>

theorem C5_eject_chain_reservation:
  assumes "setup_eject_chain m d0 path pc = Inr m'" and "distinct path"
  shows "hd path = d0 \<and> 2 \<le> length path \<and> 0 < available_balls (devs m d0) \<and>
     available_balls (devs m' d0) = available_balls (devs m d0) - 1 \<and>
     available_balls (devs m' (last path)) = available_balls (devs m (last path)) + 1 \<and>
     (\<forall>d. d \<noteq> d0 \<and> d \<noteq> last path \<longrightarrow>
        available_balls (devs m' d) = available_balls (devs m d)) \<and>
     (\<forall>i. Suc i < length path \<longrightarrow>
        (\<exists>entry. eject_queue (devs m' (path ! i)) = eject_queue (devs m (path ! i)) @ [entry] \<and>
                 fst entry = Some (path ! Suc i))) \<and>
     (\<forall>d. d \<notin> set (butlast path) \<longrightarrow> eject_queue (devs m' d) = eject_queue (devs m d))"
proof -
  note e = setup_eject_chain_effect [OF assms(1)]
  from e have hd: "hd path = d0" and len: "2 \<le> length path" by simp_all
  from len obtain a b rest where path: "path = a # b # rest"
    by (cases path; cases "tl path") auto
  with hd assms(2) have ne: "d0 \<noteq> last path" by auto
  have queue: "\<exists>entry. eject_queue (devs m' (path ! i)) = eject_queue (devs m (path ! i)) @ [entry] \<and>
                 fst entry = Some (path ! Suc i)" if i: "Suc i < length path" for i
  proof -
    from e obtain new where new: "eject_queue (devs m' (path ! i)) = eject_queue (devs m (path ! i)) @ new"
      "map fst new = new_targets path (path ! i)" by blast
    from new(2) new_targets_distinct [OF assms(2) i] have "map fst new = [Some (path ! Suc i)]" by simp
    then obtain entry where "new = [entry]" "fst entry = Some (path ! Suc i)" by auto
    with new(1) show ?thesis by blast
  qed
  have frame: "eject_queue (devs m' d) = eject_queue (devs m d)" if d: "d \<notin> set (butlast path)" for d
  proof -
    from e obtain new where new: "eject_queue (devs m' d) = eject_queue (devs m d) @ new"
      "map fst new = new_targets path d" by blast
    from new(2) new_targets_notin [OF d] have "new = []" by simp
    with new(1) show ?thesis by simp
  qed
  from e ne hd len queue frame show ?thesis by auto
qed

theorem C5_eject_chain_reservation_witness:
  "(case setup_eject_chain (start line_machine) ''a'' [''a'', ''b'', ''c''] False of
      Inl e \<Rightarrow> False
    | Inr m' \<Rightarrow>
        distinct [''a'', ''b'', ''c''] \<and>
        available_balls (devs m' ''a'') = 0 \<and> available_balls (devs m' ''b'') = 0 \<and>
        available_balls (devs m' ''c'') = 1 \<and>
        length (eject_queue (devs m' ''a'')) = 1 \<and> length (eject_queue (devs m' ''b'')) = 1 \<and>
        eject_queue (devs m' ''c'') = [])"
proof -
  have "\<not> isl (setup_eject_chain (start line_machine) ''a'' [''a'', ''b'', ''c''] False)"
    by code_simp
  then obtain m' where
    m': "setup_eject_chain (start line_machine) ''a'' [''a'', ''b'', ''c''] False = Inr m'"
    by (cases "setup_eject_chain (start line_machine) ''a'' [''a'', ''b'', ''c''] False") auto
  have d: "distinct [''a'', ''b'', ''c'']" by simp
  note t = C5_eject_chain_reservation [OF m' d]
  have a0: "available_balls (devs (start line_machine) ''a'') = 1"
       "available_balls (devs (start line_machine) ''b'') = 0"
       "available_balls (devs (start line_machine) ''c'') = 0"
       "eject_queue (devs (start line_machine) ''a'') = []"
       "eject_queue (devs (start line_machine) ''b'') = []"
       "eject_queue (devs (start line_machine) ''c'') = []"
    by code_simp+
  from t have "available_balls (devs m' ''a'') = available_balls (devs (start line_machine) ''a'') - 1"
    by (elim conjE) assumption
  with a0 have 1: "available_balls (devs m' ''a'') = 0" by simp
  from t have "available_balls (devs m' (last [''a'', ''b'', ''c''])) =
       available_balls (devs (start line_machine) (last [''a'', ''b'', ''c''])) + 1"
    by (elim conjE) assumption
  with a0 have 2: "available_balls (devs m' ''c'') = 1" by simp
  from t have av: "\<forall>d. d \<noteq> ''a'' \<and> d \<noteq> last [''a'', ''b'', ''c''] \<longrightarrow>
      available_balls (devs m' d) = available_balls (devs (start line_machine) d)"
    by (elim conjE) assumption
  from av [rule_format, of "''b''"] a0 have 3: "available_balls (devs m' ''b'') = 0" by simp
  from t have q: "\<forall>i. Suc i < length [''a'', ''b'', ''c''] \<longrightarrow>
      (\<exists>entry. eject_queue (devs m' ([''a'', ''b'', ''c''] ! i)) =
           eject_queue (devs (start line_machine) ([''a'', ''b'', ''c''] ! i)) @ [entry] \<and>
                 fst entry = Some ([''a'', ''b'', ''c''] ! Suc i))"
    by (elim conjE) assumption
  from q [rule_format, of 0] obtain e0 where
    "eject_queue (devs m' ''a'') = eject_queue (devs (start line_machine) ''a'') @ [e0]"
    by auto
  with a0 have 4: "length (eject_queue (devs m' ''a'')) = 1" by simp
  from q [rule_format, of 1] obtain e1 where
    "eject_queue (devs m' ''b'') = eject_queue (devs (start line_machine) ''b'') @ [e1]"
    by auto
  with a0 have 5: "length (eject_queue (devs m' ''b'')) = 1" by simp
  from t have fr: "\<forall>d. d \<notin> set (butlast [''a'', ''b'', ''c'']) \<longrightarrow>
      eject_queue (devs m' d) = eject_queue (devs (start line_machine) d)"
    by (elim conjE) assumption
  from fr [rule_format, of "''c''"] a0 have 6: "eject_queue (devs m' ''c'') = []" by simp
  from m' d 1 2 3 4 5 6 show ?thesis by simp
qed

subsection \<open>Validation of the configuration\<close>


lemma validate_config_without_ejector:
  "eject_coil (config (m d)) = None \<Longrightarrow> hold_coil (config (m d)) = None \<Longrightarrow>
   \<not> mechanical_eject (config (m d)) \<Longrightarrow>
   validate_config n m d = Inl (AssertionError
      ''Device needs an eject_coil, a hold_coil, or mechanical_eject: True'')"
  by (simp add: validate_config_def)

lemma find_next_trough_error:
  "find_next_trough n m d = Inl e \<longrightarrow> e = RecursionError"
  "find_next_trough_loop n m ts = Inl e \<longrightarrow> e = RecursionError"
  by (induction n m d and n m ts rule: find_next_trough_find_next_trough_loop.induct)
     (auto split: sum.splits option.splits if_splits)

lemma find_path_to_target_error:
  "find_path_to_target n m d t = Inl e \<longrightarrow> e = RecursionError"
  "find_path_to_target_loop n m d ts t = Inl e \<longrightarrow> e = RecursionError"
  by (induction n m d t and n m d ts t rule: find_path_to_target_find_path_to_target_loop.induct)
     (auto split: sum.splits option.splits if_splits)

lemma validate_config_ejector_error:
  "validate_config n m d = Inl (AssertionError
      ''Device needs an eject_coil, a hold_coil, or mechanical_eject: True'') \<Longrightarrow>
   eject_coil (config (m d)) = None \<and> hold_coil (config (m d)) = None \<and>
   \<not> mechanical_eject (config (m d))"
  unfolding validate_config_def Let_def py_min_def py_max_def
  using find_next_trough_error(1) [of n m d] find_path_to_target_error(1) [of n m d]
  by (auto split: if_splits sum.splits option.splits list.splits)

text \<open>
  C3: validation is to fail exactly when not exactly one of eject coil, hold coil and
  mechanical eject is configured. The source checks only that at least one is (the two
  lemmas above), although its comment says that a device cannot have a hold coil and
  an eject coil. The device d of \<open>two_coils_machine\<close> has both and passes every check
  of \<open>_validate_config\<close>.
\<close>

theorem C3_two_ejectors_accepted:
  "eject_coil (config (two_coils_machine ''d'')) = Some ''c_eject'' \<and>
   hold_coil (config (two_coils_machine ''d'')) = Some ''c_hold'' \<and>
   validate_config 1000 two_coils_machine ''d'' = Inr ()"
  by code_simp

end
